theory Spec2Isabelle
  imports Main
begin

section \<open>Values of the data handlers (DataHandler.py)\<close>

text \<open>
  The handlers move CSV cells around without computing on them, so a cell is a value of
  an arbitrary type \<open>'c\<close>; \<open>None\<close> is pandas' missing value (NaN). A row of a
  frame is the list of its cells in column order.
\<close>

type_synonym 'c row = "'c option list"

text \<open>
  A pandas DataFrame: its column labels and its rows, each with its index label. The
  frames of this file are indexed by a RangeIndex, so a label is a natural number.
\<close>

record 'c DataFrame =
  columns :: "string list"
  frame_rows :: "(nat \<times> 'c row) list"

text \<open>The exceptions that the code can meet, as values.\<close>

datatype error = FileNotFoundError | AttributeError | IndexError | KeyError

text \<open>\<open>MarketEvent()\<close> of the module Event: the handlers only append it.\<close>

datatype event = MarketEvent

text \<open>
  A bar is a Python tuple. Its components are the symbol string that the handler was
  given, or a cell of the row.
\<close>

datatype 'c pyval = is_Symbol: Symbol string | Field "'c option"

type_synonym 'c bar = "'c pyval list"

text \<open>What \<open>next(generator)\<close> does: it yields a bar, raises StopIteration, or
  lets another exception through.\<close>

datatype 'c outcome = Yield "'c bar" | StopIteration | Raise error

section \<open>The pandas and os.path primitives that the handlers call\<close>

text \<open>\<open>os.path.join(a, b)\<close> on POSIX, for two components.\<close>

definition os_path_join :: "string \<Rightarrow> string \<Rightarrow> string" where
  "os_path_join a b =
     (if b \<noteq> [] \<and> hd b = CHR ''/'' then b
      else if a = [] \<or> last a = CHR ''/'' then a @ b
      else a @ ''/'' @ b)"

text \<open>
  The file system maps a path to the parsed content of the CSV file there: the header
  and the data rows. \<open>pd.read_csv(path)\<close> gives the frame with the default
  RangeIndex \<open>0 .. n - 1\<close>, and raises when there is no such file.
\<close>

type_synonym 'c filesystem = "string \<rightharpoonup> (string list \<times> 'c row list)"

definition range_index :: "'c row list \<Rightarrow> (nat \<times> 'c row) list" where
  "range_index rs = zip [0..<length rs] rs"

definition read_csv :: "'c filesystem \<Rightarrow> string \<Rightarrow> error + 'c DataFrame" where
  "read_csv fs path =
     (case fs path of
        None \<Rightarrow> Inl FileNotFoundError
      | Some (header, rs) \<Rightarrow> Inr \<lparr>columns = header, frame_rows = range_index rs\<rparr>)"

text \<open>\<open>df.dropna()\<close>: the rows with no missing cell, under their old labels.\<close>

definition dropna :: "'c DataFrame \<Rightarrow> 'c DataFrame" where
  "dropna df = df\<lparr>frame_rows := filter (\<lambda>(k, r). None \<notin> set r) (frame_rows df)\<rparr>"

text \<open>\<open>df.reset_index(drop = True)\<close>: the same rows, labelled \<open>0 .. n - 1\<close>.\<close>

definition reset_index :: "'c DataFrame \<Rightarrow> 'c DataFrame" where
  "reset_index df = df\<lparr>frame_rows := range_index (map snd (frame_rows df))\<rparr>"

text \<open>\<open>df.index\<close>, and \<open>a.union(b)\<close> of two indexes: a new, sorted index; neither
  \<open>a\<close> nor \<open>b\<close> is changed.\<close>

definition index_of :: "'c DataFrame \<Rightarrow> nat list" where
  "index_of df = map fst (frame_rows df)"

definition index_union :: "nat list \<Rightarrow> nat list \<Rightarrow> nat list" where
  "index_union a b = sort (remdups (a @ b))"

text \<open>
  \<open>df.reindex(index = target, method = 'pad')\<close> for a frame whose labels increase:
  the row at a target label \<open>t\<close> is the frame's last row with a label \<open>\<le> t\<close>, and a
  row of missing values when there is none.
\<close>

definition nan_row :: "'c DataFrame \<Rightarrow> 'c row" where
  "nan_row df = map (\<lambda>_. None) (columns df)"

definition pad_row :: "'c DataFrame \<Rightarrow> nat \<Rightarrow> 'c row" where
  "pad_row df t =
     (case filter (\<lambda>(k, r). k \<le> t) (frame_rows df) of
        [] \<Rightarrow> nan_row df
      | x # xs \<Rightarrow> snd (last (x # xs)))"

definition reindex_pad :: "nat list \<Rightarrow> 'c DataFrame \<Rightarrow> 'c DataFrame" where
  "reindex_pad target df = df\<lparr>frame_rows := map (\<lambda>t. (t, pad_row df t)) target\<rparr>"

text \<open>Python's \<open>xs[i:]\<close> for an integer \<open>i\<close>: a negative \<open>i\<close> counts from the end.\<close>

definition slice_from :: "int \<Rightarrow> 'a list \<Rightarrow> 'a list" where
  "slice_from i xs =
     (let n = int (length xs);
          start = (if i < 0 then max 0 (n + i) else min i n)
      in drop (nat start) xs)"

section \<open>HistoricCSVDataHandler\<close>

text \<open>
  An entry of \<open>self.symbol_data\<close> is first the frame that was loaded, then the
  \<open>iterrows()\<close> iterator over the reindexed frame: the (label, row) pairs that it has
  still to give.
\<close>

datatype 'c sdata = Frame "'c DataFrame" | Iterrows "(nat \<times> 'c row) list"

text \<open>A generator made by \<open>_get_new_bar\<close> is running its loop or has finished.\<close>

datatype generator = Active | Finished

record 'c HistoricCSVDataHandler =
  events :: "event list"
  csv_dir :: string
  symbol_list :: "string list"
  symbol_data :: "string \<rightharpoonup> 'c sdata"
  latest_symbol_data :: "string \<rightharpoonup> 'c bar list"
  continue_backtest :: bool
  new_bar :: "string \<rightharpoonup> generator"

text \<open>Line 116: the frame of one symbol as it is loaded.\<close>

definition load_symbol :: "'c filesystem \<Rightarrow> string \<Rightarrow> string \<Rightarrow> error + 'c DataFrame" where
  "load_symbol fs dir s =
     (case read_csv fs (os_path_join dir (s @ ''.csv'')) of
        Inl e \<Rightarrow> Inl e
      | Inr df \<Rightarrow> Inr (reset_index (dropna df)))"

text \<open>
  The first loop of \<open>_new_open_convert_csv_files\<close> (lines 114 to 125), over the state
  (symbol_data, latest_symbol_data, comb_index). The index that \<open>comb_index.union\<close>
  returns is not assigned, so \<open>comb_index\<close> keeps the index of the first symbol.
\<close>

fun load_loop ::
  "'c filesystem \<Rightarrow> string \<Rightarrow> string list
   \<Rightarrow> (string \<rightharpoonup> 'c sdata) \<times> (string \<rightharpoonup> 'c bar list) \<times> nat list option
   \<Rightarrow> error + ((string \<rightharpoonup> 'c sdata) \<times> (string \<rightharpoonup> 'c bar list) \<times> nat list option)"
where
  "load_loop fs dir [] st = Inr st"
| "load_loop fs dir (s # ss) (sd, lat, comb_index) =
     (case load_symbol fs dir s of
        Inl e \<Rightarrow> Inl e
      | Inr df \<Rightarrow>
          load_loop fs dir ss
            (sd(s \<mapsto> Frame df),
             lat(s \<mapsto> []),
             (case comb_index of
                None \<Rightarrow> Some (index_of df)
              | Some ci \<Rightarrow> (let unused = index_union ci (index_of df) in Some ci))))"

text \<open>
  Line 129, for one frame: \<open>df.reindex(index = comb_index, method = 'pad').iterrows()\<close>
  gives the (label, row) pairs of the reindexed frame (\<open>comb_index\<close> is still
  None only when there is no symbol at all, and then the line is never reached).
\<close>

definition aligned_series :: "nat list option \<Rightarrow> 'c DataFrame \<Rightarrow> (nat \<times> 'c row) list" where
  "aligned_series comb_index df =
     frame_rows (case comb_index of None \<Rightarrow> df | Some ci \<Rightarrow> reindex_pad ci df)"

text \<open>
  The second loop (lines 128 and 129): \<open>reindex\<close> is a method of a frame; an entry
  that already is an iterator has no such attribute.
\<close>

fun reindex_loop ::
  "nat list option \<Rightarrow> string list \<Rightarrow> (string \<rightharpoonup> 'c sdata) \<Rightarrow> error + (string \<rightharpoonup> 'c sdata)"
where
  "reindex_loop comb_index [] sd = Inr sd"
| "reindex_loop comb_index (s # ss) sd =
     (case sd s of
        None \<Rightarrow> Inl KeyError
      | Some (Iterrows rs) \<Rightarrow> Inl AttributeError
      | Some (Frame df) \<Rightarrow>
          reindex_loop comb_index ss
            (sd(s \<mapsto> Iterrows (aligned_series comb_index df))))"

definition new_open_convert_csv_files ::
  "'c filesystem \<Rightarrow> string \<Rightarrow> string list
   \<Rightarrow> error + ((string \<rightharpoonup> 'c sdata) \<times> (string \<rightharpoonup> 'c bar list) \<times> nat list option)"
where
  "new_open_convert_csv_files fs dir syms =
     (case load_loop fs dir syms (Map.empty, Map.empty, None) of
        Inl e \<Rightarrow> Inl e
      | Inr (sd, lat, comb_index) \<Rightarrow>
          (case reindex_loop comb_index syms sd of
             Inl e \<Rightarrow> Inl e
           | Inr sd' \<Rightarrow> Inr (sd', lat, comb_index)))"

text \<open>
  \<open>__init__\<close>: the dictionary comprehension of line 75 stores one generator per
  symbol, a later pair replacing an earlier one with the same key. A generator runs
  nothing before its first \<open>next\<close>.
\<close>

definition HistoricCSVDataHandler_init ::
  "event list \<Rightarrow> string \<Rightarrow> string list \<Rightarrow> 'c filesystem \<Rightarrow> error + 'c HistoricCSVDataHandler"
where
  "HistoricCSVDataHandler_init evs dir syms fs =
     (case new_open_convert_csv_files fs dir syms of
        Inl e \<Rightarrow> Inl e
      | Inr (sd, lat, comb_index) \<Rightarrow>
          Inr \<lparr>events = evs, csv_dir = dir, symbol_list = syms, symbol_data = sd,
               latest_symbol_data = lat, continue_backtest = True,
               new_bar = fold (\<lambda>(k, v) m. m(k \<mapsto> v)) (map (\<lambda>s. (s, Active)) syms) Map.empty\<rparr>)"

text \<open>
  \<open>b[1][i]\<close>: the cell at position \<open>i\<close> of the row, an IndexError past its end
  (the row is a Series labelled by the column names, and pandas reads an integer key on
  such a Series by position). Line 137 reads the positions 0 to 6 in this order.
\<close>

definition historic_bar :: "string \<Rightarrow> 'c row \<Rightarrow> error + 'c bar" where
  "historic_bar symbol r =
     (if length r < 7 then Inl IndexError
      else Inr [Symbol symbol, Field (r ! 0), Field (r ! 1), Field (r ! 2), Field (r ! 3),
                Field (r ! 4), Field (r ! 5), Field (r ! 6)])"

text \<open>
  \<open>next(self.new_bar[s])\<close> for the generator \<open>_get_new_bar(s)\<close>, on the handler's
  state. A finished generator raises StopIteration again. A running one takes the
  next pair from \<open>self.symbol_data[s]\<close>; an exception in its body finishes it.
  Iterating a frame itself gives its column labels, and \<open>b[1][1]\<close> of a string is
  past the end of the one-character string \<open>b[1]\<close>.
\<close>

definition advance ::
  "'c HistoricCSVDataHandler \<Rightarrow> string \<Rightarrow> 'c outcome \<times> 'c HistoricCSVDataHandler"
where
  "advance h s =
     (case new_bar h s of
        None \<Rightarrow> (Raise KeyError, h)
      | Some Finished \<Rightarrow> (StopIteration, h)
      | Some Active \<Rightarrow>
          (case symbol_data h s of
             None \<Rightarrow> (Raise KeyError, h\<lparr>new_bar := (new_bar h)(s \<mapsto> Finished)\<rparr>)
           | Some (Frame df) \<Rightarrow>
               (if columns df = [] then StopIteration else Raise IndexError,
                h\<lparr>new_bar := (new_bar h)(s \<mapsto> Finished)\<rparr>)
           | Some (Iterrows []) \<Rightarrow>
               (StopIteration, h\<lparr>new_bar := (new_bar h)(s \<mapsto> Finished)\<rparr>)
           | Some (Iterrows ((k, r) # rs)) \<Rightarrow>
               (case historic_bar s r of
                  Inl e \<Rightarrow>
                    (Raise e, h\<lparr>symbol_data := (symbol_data h)(s \<mapsto> Iterrows rs),
                                new_bar := (new_bar h)(s \<mapsto> Finished)\<rparr>)
                | Inr bar \<Rightarrow>
                    (Yield bar, h\<lparr>symbol_data := (symbol_data h)(s \<mapsto> Iterrows rs)\<rparr>))))"

text \<open>
  \<open>get_latest_bars\<close>: the result (\<open>None\<close> is Python's None, returned after the
  except branch) and the lines printed.
\<close>

definition get_latest_bars ::
  "'c HistoricCSVDataHandler \<Rightarrow> string \<Rightarrow> int \<Rightarrow> 'c bar list option \<times> string list"
where
  "get_latest_bars h symbol N =
     (case latest_symbol_data h symbol of
        None \<Rightarrow> (None, [''That symbol is not available in the historical data set.''])
      | Some bars_list \<Rightarrow> (Some (slice_from (- N) bars_list), []))"

text \<open>
  The loop of \<open>update_bars\<close> (lines 156 to 163). An exception other than
  StopIteration leaves the loop and the method; what was changed before stays changed.
\<close>

fun update_loop ::
  "string list \<Rightarrow> 'c HistoricCSVDataHandler \<Rightarrow> (error + unit) \<times> 'c HistoricCSVDataHandler"
where
  "update_loop [] h = (Inr (), h)"
| "update_loop (s # ss) h =
     (case advance h s of
        (Raise e, h') \<Rightarrow> (Inl e, h')
      | (StopIteration, h') \<Rightarrow> update_loop ss (h'\<lparr>continue_backtest := False\<rparr>)
      | (Yield bar, h') \<Rightarrow>
          (case latest_symbol_data h' s of
             None \<Rightarrow> (Inl KeyError, h')
           | Some bars \<Rightarrow>
               update_loop ss
                 (h'\<lparr>latest_symbol_data := (latest_symbol_data h')(s \<mapsto> bars @ [bar])\<rparr>)))"

definition update_bars ::
  "'c HistoricCSVDataHandler \<Rightarrow> (error + unit) \<times> 'c HistoricCSVDataHandler"
where
  "update_bars h =
     (case update_loop (symbol_list h) h of
        (Inl e, h') \<Rightarrow> (Inl e, h')
      | (Inr u, h') \<Rightarrow> (Inr (), h'\<lparr>events := events h' @ [MarketEvent]\<rparr>))"

text \<open>The handler after \<open>n\<close> calls of \<open>update_bars\<close>, whatever each call returned.\<close>

fun calls :: "nat \<Rightarrow> 'c HistoricCSVDataHandler \<Rightarrow> 'c HistoricCSVDataHandler" where
  "calls 0 h = h"
| "calls (Suc n) h = snd (update_bars (calls n h))"

text \<open>The handler after the cursors of the symbols \<open>ts\<close> were advanced, one
  after the other, as any caller of \<open>next\<close> may do.\<close>

definition advances :: "string list \<Rightarrow> 'c HistoricCSVDataHandler \<Rightarrow> 'c HistoricCSVDataHandler" where
  "advances ts h = fold (\<lambda>t h. snd (advance h t)) ts h"

section \<open>SimpleCSVHandler\<close>

text \<open>
  The generator of \<open>SimpleCSVHandler._get_new_bar\<close> calls \<open>self.bars.iterrows()\<close>
  at its first \<open>next\<close> and keeps the iterator to itself.
\<close>

datatype 'c simple_generator =
  NotStarted | Running "(nat \<times> 'c row) list" | Done

record 'c SimpleCSVHandler =
  events_s :: "event list"
  csv_s :: string
  latest_symbol_data_s :: "'c bar list"
  continue_backtest_s :: bool
  bars_s :: "'c DataFrame"
  new_bar_s :: "'c simple_generator"

definition SimpleCSVHandler_init ::
  "event list \<Rightarrow> string \<Rightarrow> 'c filesystem \<Rightarrow> error + 'c SimpleCSVHandler"
where
  "SimpleCSVHandler_init evs csv fs =
     (case read_csv fs csv of
        Inl e \<Rightarrow> Inl e
      | Inr df \<Rightarrow>
          Inr \<lparr>events_s = evs, csv_s = csv, latest_symbol_data_s = [],
               continue_backtest_s = True, bars_s = reset_index (dropna df),
               new_bar_s = NotStarted\<rparr>)"

text \<open>Line 192: a tuple of the seven cells, and nothing else.\<close>

definition simple_bar :: "'c row \<Rightarrow> error + 'c bar" where
  "simple_bar r =
     (if length r < 7 then Inl IndexError
      else Inr [Field (r ! 0), Field (r ! 1), Field (r ! 2), Field (r ! 3),
                Field (r ! 4), Field (r ! 5), Field (r ! 6)])"

fun simple_resume :: "(nat \<times> 'c row) list \<Rightarrow> 'c outcome \<times> 'c simple_generator" where
  "simple_resume [] = (StopIteration, Done)"
| "simple_resume ((k, r) # rs) =
     (case simple_bar r of
        Inl e \<Rightarrow> (Raise e, Done)
      | Inr bar \<Rightarrow> (Yield bar, Running rs))"

fun simple_next ::
  "'c DataFrame \<Rightarrow> 'c simple_generator \<Rightarrow> 'c outcome \<times> 'c simple_generator"
where
  "simple_next df Done = (StopIteration, Done)"
| "simple_next df NotStarted = simple_resume (frame_rows df)"
| "simple_next df (Running rs) = simple_resume rs"

definition advance_s :: "'c SimpleCSVHandler \<Rightarrow> 'c outcome \<times> 'c SimpleCSVHandler" where
  "advance_s h =
     (case simple_next (bars_s h) (new_bar_s h) of
        (out, g) \<Rightarrow> (out, h\<lparr>new_bar_s := g\<rparr>))"

definition get_latest_bars_s :: "'c SimpleCSVHandler \<Rightarrow> string option \<Rightarrow> int \<Rightarrow> 'c bar list" where
  "get_latest_bars_s h symbol N = slice_from (- N) (latest_symbol_data_s h)"

definition update_bars_s :: "'c SimpleCSVHandler \<Rightarrow> (error + unit) \<times> 'c SimpleCSVHandler" where
  "update_bars_s h =
     (case advance_s h of
        (Raise e, h') \<Rightarrow> (Inl e, h')
      | (StopIteration, h') \<Rightarrow>
          (Inr (), h'\<lparr>continue_backtest_s := False, events_s := events_s h' @ [MarketEvent]\<rparr>)
      | (Yield bar, h') \<Rightarrow>
          (Inr (), h'\<lparr>latest_symbol_data_s := latest_symbol_data_s h' @ [bar],
                      events_s := events_s h' @ [MarketEvent]\<rparr>))"

fun calls_s :: "nat \<Rightarrow> 'c SimpleCSVHandler \<Rightarrow> 'c SimpleCSVHandler" where
  "calls_s 0 h = h"
| "calls_s (Suc n) h = snd (update_bars_s (calls_s n h))"

section \<open>Concrete inputs\<close>

text \<open>
  Files with the header that \<open>_new_open_convert_csv_files\<close> documents
  (Date, Open, High, Low, Close, Adj Close, Volume): A.csv has one data row and B.csv has
  two. N.csv has the six columns timestamp, open, high, low, close and volume only,
  and M.csv has a timestamp and an open column and no other.
  The cells are numbers that tell the rows apart.
\<close>

definition yahoo_header :: "string list" where
  "yahoo_header = [''Date'', ''Open'', ''High'', ''Low'', ''Close'', ''Adj Close'', ''Volume'']"

definition cells :: "nat \<Rightarrow> nat row" where
  "cells n = map Some [n, n + 1, n + 2, n + 3, n + 4, n + 5, n + 6]"

definition fs_AB :: "nat filesystem" where
  "fs_AB = [''data/A.csv'' \<mapsto> (yahoo_header, [cells 10]),
            ''data/B.csv'' \<mapsto> (yahoo_header, [cells 20, cells 30])]"


definition fs_narrow :: "nat filesystem" where
  "fs_narrow = [''data/N.csv'' \<mapsto>
     ([''Date'', ''Open'', ''High'', ''Low'', ''Close'', ''Volume''],
      [map Some [1, 2, 3, 4, 5, 6]])]"

section \<open>Facts about the primitives and the loader\<close>

lemma slice_from_zero: "slice_from 0 xs = xs"
  by (simp add: slice_from_def)

lemma slice_from_neg:
  "0 < N \<Longrightarrow> slice_from (- N) xs = drop (length xs - nat N) xs"
  by (auto simp: slice_from_def Let_def max_def nat_diff_distrib' intro: arg_cong[where f="\<lambda>n. drop n xs"])

subsection \<open>The two loops of the loader\<close>

lemma load_loop_result:
  "load_loop fs dir ss (sd, lat, ci) = Inr (sd', lat', ci') \<Longrightarrow>
     dom lat' = dom lat \<union> set ss \<and> dom sd' = dom sd \<union> set ss
     \<and> (\<forall>s \<in> set ss. lat' s = Some [] \<and> (\<exists>df. load_symbol fs dir s = Inr df \<and> sd' s = Some (Frame df)))
     \<and> (\<forall>s. s \<notin> set ss \<longrightarrow> lat' s = lat s \<and> sd' s = sd s)"
proof (induction ss arbitrary: sd lat ci)
  case Nil
  then show ?case by simp
next
  case (Cons a ss)
  from Cons.prems obtain df where df: "load_symbol fs dir a = Inr df"
    by (auto split: sum.splits)
  let ?ci = "(case ci of None \<Rightarrow> Some (index_of df) | Some c \<Rightarrow> Some c)"
  from Cons.prems df have rec: "load_loop fs dir ss (sd(a \<mapsto> Frame df), lat(a \<mapsto> []), ?ci) = Inr (sd', lat', ci')"
    by (simp add: Let_def split: option.splits)
  note IH = Cons.IH [OF rec]
  show ?case
  proof (intro conjI ballI allI impI)
    show "dom lat' = dom lat \<union> set (a # ss)" using IH by auto
    show "dom sd' = dom sd \<union> set (a # ss)" using IH by auto
  next
    fix s assume s: "s \<in> set (a # ss)"
    show "lat' s = Some []" using IH s by (cases "s \<in> set ss") auto
    show "\<exists>df. load_symbol fs dir s = Inr df \<and> sd' s = Some (Frame df)"
      using IH s df by (cases "s \<in> set ss") auto
  next
    fix s assume "s \<notin> set (a # ss)"
    then show "lat' s = lat s" "sd' s = sd s" using IH by auto
  qed
qed

lemma load_loop_comb_index:
  "load_loop fs dir ss (sd, lat, ci) = Inr (sd', lat', ci') \<Longrightarrow>
     ci' = (case ci of Some c \<Rightarrow> Some c
            | None \<Rightarrow> (case ss of [] \<Rightarrow> None
                        | s # _ \<Rightarrow> (case load_symbol fs dir s of Inr df \<Rightarrow> Some (index_of df) | Inl e \<Rightarrow> None)))"
proof (induction ss arbitrary: sd lat ci)
  case Nil
  then show ?case by (simp split: option.splits)
next
  case (Cons a ss)
  from Cons.prems obtain df where df: "load_symbol fs dir a = Inr df"
    by (auto split: sum.splits)
  let ?ci = "(case ci of None \<Rightarrow> Some (index_of df) | Some c \<Rightarrow> Some c)"
  from Cons.prems df have rec: "load_loop fs dir ss (sd(a \<mapsto> Frame df), lat(a \<mapsto> []), ?ci) = Inr (sd', lat', ci')"
    by (simp add: Let_def split: option.splits)
  show ?case using Cons.IH [OF rec] df by (simp split: option.splits)
qed

lemma reindex_loop_result:
  "reindex_loop ci ss sd = Inr sd' \<Longrightarrow>
     distinct ss
     \<and> (\<forall>s \<in> set ss. \<exists>df. sd s = Some (Frame df) \<and> sd' s = Some (Iterrows (aligned_series ci df)))
     \<and> (\<forall>s. s \<notin> set ss \<longrightarrow> sd' s = sd s)"
proof (induction ss arbitrary: sd)
  case Nil
  then show ?case by simp
next
  case (Cons a ss)
  from Cons.prems obtain df where df: "sd a = Some (Frame df)"
    by (auto split: option.splits sdata.splits)
  from Cons.prems df have rec: "reindex_loop ci ss (sd(a \<mapsto> Iterrows (aligned_series ci df))) = Inr sd'"
    by (simp add: aligned_series_def)
  note IH = Cons.IH [OF rec]
  have notin: "a \<notin> set ss"
  proof
    assume "a \<in> set ss"
    with IH obtain df' where "(sd(a \<mapsto> Iterrows (aligned_series ci df))) a = Some (Frame df')" by blast
    then show False by simp
  qed
  show ?case
  proof (intro conjI ballI allI impI)
    show "distinct (a # ss)" using IH notin by simp
  next
    fix s assume s: "s \<in> set (a # ss)"
    show "\<exists>df. sd s = Some (Frame df) \<and> sd' s = Some (Iterrows (aligned_series ci df))"
    proof (cases "s = a")
      case True
      then show ?thesis using IH notin df by simp
    next
      case False
      then show ?thesis using IH s by (auto split: if_splits)
    qed
  next
    fix s assume "s \<notin> set (a # ss)"
    then show "sd' s = sd s" using IH by auto
  qed
qed



lemma new_bar_fold:
  "fold (\<lambda>(k, v) m. m(k \<mapsto> v)) (map (\<lambda>s. (s, Active)) ss) m0 =
     (\<lambda>s. if s \<in> set ss then Some Active else m0 s)"
  by (induction ss arbitrary: m0) (auto simp: fun_eq_iff)

subsection \<open>Construction, one advance, and the loop of update_bars\<close>

lemma init_result:
  assumes "HistoricCSVDataHandler_init evs dir syms fs = Inr h"
  shows "symbol_list h = syms" and "distinct syms" and "events h = evs" and "continue_backtest h"
    and "dom (latest_symbol_data h) = set syms" and "dom (new_bar h) = set syms"
    and "\<forall>s \<in> set syms. latest_symbol_data h s = Some [] \<and> new_bar h s = Some Active"
proof -
  from assms obtain sd lat ci where
    oc: "new_open_convert_csv_files fs dir syms = Inr (sd, lat, ci)"
    and h: "h = \<lparr>events = evs, csv_dir = dir, symbol_list = syms, symbol_data = sd,
               latest_symbol_data = lat, continue_backtest = True,
               new_bar = fold (\<lambda>(k, v) m. m(k \<mapsto> v)) (map (\<lambda>s. (s, Active)) syms) Map.empty\<rparr>"
    by (auto simp: HistoricCSVDataHandler_init_def split: sum.splits)
  from oc obtain sd0 where
    ll: "load_loop fs dir syms (Map.empty, Map.empty, None) = Inr (sd0, lat, ci)"
    and rl: "reindex_loop ci syms sd0 = Inr sd"
    by (auto simp: new_open_convert_csv_files_def split: sum.splits)
  note L = load_loop_result [OF ll]
  note R = reindex_loop_result [OF rl]
  show "symbol_list h = syms" "events h = evs" "continue_backtest h" using h by simp_all
  show "distinct syms" using R by simp
  show "dom (latest_symbol_data h) = set syms" using L h by simp
  show "dom (new_bar h) = set syms" using h by (auto simp: new_bar_fold split: if_splits)
  show "\<forall>s \<in> set syms. latest_symbol_data h s = Some [] \<and> new_bar h s = Some Active"
    using L h by (simp add: new_bar_fold)
qed

lemma advance_frame:
  assumes "advance h s = (out, h')"
  shows "symbol_list h' = symbol_list h" and "events h' = events h"
    and "latest_symbol_data h' = latest_symbol_data h"
    and "continue_backtest h' = continue_backtest h"
    and "dom (new_bar h') = dom (new_bar h)"
    and "t \<noteq> s \<Longrightarrow> new_bar h' t = new_bar h t"
    and "t \<noteq> s \<Longrightarrow> symbol_data h' t = symbol_data h t"
  using assms
  by (auto simp: advance_def split: option.splits generator.splits sdata.splits list.splits
      sum.splits prod.splits if_splits)

lemma advance_finished:
  "new_bar h s = Some Finished \<Longrightarrow> advance h s = (StopIteration, h)"
  by (simp add: advance_def)

lemma advance_stop_finishes:
  "advance h s = (StopIteration, h') \<Longrightarrow> new_bar h' s = Some Finished"
  by (auto simp: advance_def split: option.splits generator.splits sdata.splits list.splits
      sum.splits prod.splits if_splits)

lemma advance_keeps_finished:
  "new_bar h t = Some Finished \<Longrightarrow> advance h s = (out, h') \<Longrightarrow> new_bar h' t = Some Finished"
  by (auto simp: advance_def split: option.splits generator.splits sdata.splits list.splits
      sum.splits prod.splits if_splits)


lemma advance_cong:
  assumes "new_bar h1 s = new_bar h2 s" and "symbol_data h1 s = symbol_data h2 s"
  shows "fst (advance h1 s) = fst (advance h2 s)"
    and "new_bar (snd (advance h1 s)) s = new_bar (snd (advance h2 s)) s"
    and "symbol_data (snd (advance h1 s)) s = symbol_data (snd (advance h2 s)) s"
  using assms
  by (auto simp: advance_def split: option.splits generator.splits sdata.splits list.splits
      sum.splits prod.splits if_splits)

lemma update_loop_frame:
  "update_loop ss h = (res, h') \<Longrightarrow>
     symbol_list h' = symbol_list h \<and> events h' = events h
     \<and> dom (latest_symbol_data h') = dom (latest_symbol_data h)
     \<and> dom (new_bar h') = dom (new_bar h)
     \<and> (\<not> continue_backtest h \<longrightarrow> \<not> continue_backtest h')
     \<and> (\<forall>t. t \<notin> set ss \<longrightarrow> latest_symbol_data h' t = latest_symbol_data h t
            \<and> new_bar h' t = new_bar h t \<and> symbol_data h' t = symbol_data h t)
     \<and> (\<forall>t. new_bar h t = Some Finished \<longrightarrow> new_bar h' t = Some Finished)"
proof (induction ss arbitrary: h)
  case Nil
  then show ?case by simp
next
  case (Cons a ss)
  obtain out h1 where adv: "advance h a = (out, h1)" by (cases "advance h a") auto
  note F = advance_frame [OF adv]
  note K = advance_keeps_finished [OF _ adv]
  show ?case
  proof (cases out)
    case (Raise e)
    with Cons.prems adv have "h' = h1" by simp
    then show ?thesis using F K by auto
  next
    case StopIteration
    with Cons.prems adv have rec: "update_loop ss (h1\<lparr>continue_backtest := False\<rparr>) = (res, h')"
      by simp
    from Cons.IH [OF rec] show ?thesis using F K by auto
  next
    case (Yield bar)
    show ?thesis
    proof (cases "latest_symbol_data h1 a")
      case None
      with Cons.prems adv Yield have "h' = h1" by simp
      then show ?thesis using F K by auto
    next
      case (Some bars)
      with Cons.prems adv Yield have rec:
        "update_loop ss (h1\<lparr>latest_symbol_data := (latest_symbol_data h1)(a \<mapsto> bars @ [bar])\<rparr>) = (res, h')"
        by simp
      define h2 where "h2 = h1\<lparr>latest_symbol_data := (latest_symbol_data h1)(a \<mapsto> bars @ [bar])\<rparr>"
      have d: "dom (latest_symbol_data h2) = dom (latest_symbol_data h)"
        using Some F(3) by (auto simp: h2_def)
      have o: "symbol_list h2 = symbol_list h" "events h2 = events h"
        "dom (new_bar h2) = dom (new_bar h)"
        "continue_backtest h2 = continue_backtest h"
        "\<And>t. t \<noteq> a \<Longrightarrow> latest_symbol_data h2 t = latest_symbol_data h t"
        "\<And>t. t \<noteq> a \<Longrightarrow> new_bar h2 t = new_bar h t"
        "\<And>t. t \<noteq> a \<Longrightarrow> symbol_data h2 t = symbol_data h t"
        "\<And>t. new_bar h t = Some Finished \<Longrightarrow> new_bar h2 t = Some Finished"
        using F K by (simp_all add: h2_def)
      from Cons.IH [OF rec [folded h2_def]] d o show ?thesis by auto
    qed
  qed
qed


lemma update_loop_grows:
  "distinct ss \<Longrightarrow> update_loop ss h = (res, h') \<Longrightarrow> latest_symbol_data h s = Some bs \<Longrightarrow>
     \<exists>add. latest_symbol_data h' s = Some (bs @ add) \<and> length add \<le> 1"
proof (induction ss arbitrary: h)
  case Nil
  then show ?case by simp
next
  case (Cons a ss)
  obtain out h1 where adv: "advance h a = (out, h1)" by (cases "advance h a") auto
  note F = advance_frame [OF adv]
  have dss: "distinct ss" and ass: "a \<notin> set ss" using Cons.prems(1) by simp_all
  show ?case
  proof (cases out)
    case (Raise e)
    with Cons.prems adv have "h' = h1" by simp
    then show ?thesis using F Cons.prems(3) by simp
  next
    case StopIteration
    with Cons.prems adv have rec: "update_loop ss (h1\<lparr>continue_backtest := False\<rparr>) = (res, h')"
      by simp
    have "latest_symbol_data (h1\<lparr>continue_backtest := False\<rparr>) s = Some bs"
      using F Cons.prems(3) by simp
    from Cons.IH [OF dss rec this] show ?thesis .
  next
    case (Yield bar)
    show ?thesis
    proof (cases "latest_symbol_data h1 a")
      case None
      with Cons.prems adv Yield have "h' = h1" by simp
      then show ?thesis using F Cons.prems(3) by simp
    next
      case (Some bars)
      define h2 where "h2 = h1\<lparr>latest_symbol_data := (latest_symbol_data h1)(a \<mapsto> bars @ [bar])\<rparr>"
      from Cons.prems adv Yield Some have rec: "update_loop ss h2 = (res, h')"
        by (simp add: h2_def)
      show ?thesis
      proof (cases "s = a")
        case True
        then have "bars = bs" using Some F Cons.prems(3) by simp
        moreover have "latest_symbol_data h' a = latest_symbol_data h2 a"
          using update_loop_frame [OF rec] ass by simp
        ultimately have "latest_symbol_data h' s = Some (bs @ [bar])"
          using True by (simp add: h2_def)
        then show ?thesis by simp
      next
        case False
        then have "latest_symbol_data h2 s = Some bs" using F Cons.prems(3) by (simp add: h2_def)
        from Cons.IH [OF dss rec this] show ?thesis .
      qed
    qed
  qed
qed

lemma update_loop_effect:
  "distinct ss \<Longrightarrow> update_loop ss h = (Inr u, h') \<Longrightarrow> s \<in> set ss \<Longrightarrow>
     new_bar h' s = new_bar (snd (advance h s)) s
     \<and> symbol_data h' s = symbol_data (snd (advance h s)) s
     \<and> (case fst (advance h s) of
          StopIteration \<Rightarrow>
            latest_symbol_data h' s = latest_symbol_data h s \<and> \<not> continue_backtest h'
        | Yield bar \<Rightarrow>
            (\<exists>bars. latest_symbol_data h s = Some bars
               \<and> latest_symbol_data h' s = Some (bars @ [bar]))
        | Raise e \<Rightarrow> False)"
proof (induction ss arbitrary: h)
  case Nil
  then show ?case by simp
next
  case (Cons a ss)
  obtain out h1 where adv: "advance h a = (out, h1)" by (cases "advance h a") auto
  note F = advance_frame [OF adv]
  have dss: "distinct ss" and ass: "a \<notin> set ss" using Cons.prems(1) by simp_all
  have "\<exists>h2. update_loop ss h2 = (Inr u, h')
          \<and> new_bar h2 = new_bar h1 \<and> symbol_data h2 = symbol_data h1
          \<and> (case out of
                StopIteration \<Rightarrow> latest_symbol_data h2 = latest_symbol_data h \<and> \<not> continue_backtest h2
              | Yield bar \<Rightarrow> (\<exists>bars. latest_symbol_data h a = Some bars
                    \<and> latest_symbol_data h2 = (latest_symbol_data h)(a \<mapsto> bars @ [bar]))
              | Raise e \<Rightarrow> False)"
  proof (cases out)
    case (Raise e)
    with Cons.prems adv show ?thesis by simp
  next
    case StopIteration
    with Cons.prems adv have "update_loop ss (h1\<lparr>continue_backtest := False\<rparr>) = (Inr u, h')"
      by simp
    then show ?thesis using StopIteration F by (intro exI [of _ "h1\<lparr>continue_backtest := False\<rparr>"]) simp
  next
    case (Yield bar)
    from Cons.prems adv Yield obtain bars where bars: "latest_symbol_data h1 a = Some bars"
      by (cases "latest_symbol_data h1 a") auto
    with Cons.prems adv Yield have
      "update_loop ss (h1\<lparr>latest_symbol_data := (latest_symbol_data h1)(a \<mapsto> bars @ [bar])\<rparr>) = (Inr u, h')"
      by simp
    then show ?thesis using Yield F bars
      by (intro exI [of _ "h1\<lparr>latest_symbol_data := (latest_symbol_data h1)(a \<mapsto> bars @ [bar])\<rparr>"]) simp
  qed
  then obtain h2 where rec: "update_loop ss h2 = (Inr u, h')"
    and nb: "new_bar h2 = new_bar h1" and sd: "symbol_data h2 = symbol_data h1"
    and oc: "(case out of
                StopIteration \<Rightarrow> latest_symbol_data h2 = latest_symbol_data h \<and> \<not> continue_backtest h2
              | Yield bar \<Rightarrow> (\<exists>bars. latest_symbol_data h a = Some bars
                    \<and> latest_symbol_data h2 = (latest_symbol_data h)(a \<mapsto> bars @ [bar]))
              | Raise e \<Rightarrow> False)"
    by blast
  note U = update_loop_frame [OF rec]
  show ?case
  proof (cases "s = a")
    case True
    have "new_bar h' a = new_bar h1 a" "symbol_data h' a = symbol_data h1 a"
      "latest_symbol_data h' a = latest_symbol_data h2 a"
      using U ass nb sd by simp_all
    moreover have "\<not> continue_backtest h2 \<Longrightarrow> \<not> continue_backtest h'" using U by simp
    ultimately show ?thesis using True adv oc by (cases out) auto
  next
    case False
    with Cons.prems(3) have s: "s \<in> set ss" by simp
    have e1: "new_bar h2 s = new_bar h s" "symbol_data h2 s = symbol_data h s"
      using F False nb sd by simp_all
    have e2: "latest_symbol_data h2 s = latest_symbol_data h s"
      using oc False by (cases out) auto
    note C = advance_cong [OF e1]
    from Cons.IH [OF dss rec s] show ?thesis using C e2
      by (cases "fst (advance h s)") simp_all
  qed
qed

lemma update_loop_flag:
  "update_loop ss h = (Inr u, h') \<Longrightarrow> distinct ss \<Longrightarrow>
     continue_backtest h' =
       (continue_backtest h \<and> (\<forall>s \<in> set ss. fst (advance h s) \<noteq> StopIteration))"
proof (induction ss arbitrary: h)
  case Nil
  then show ?case by simp
next
  case (Cons a ss)
  obtain out h1 where adv: "advance h a = (out, h1)" by (cases "advance h a") auto
  note F = advance_frame [OF adv]
  have dss: "distinct ss" and ass: "a \<notin> set ss" using Cons.prems(2) by simp_all
  show ?case
  proof (cases out)
    case (Raise e)
    with Cons.prems adv show ?thesis by simp
  next
    case StopIteration
    with Cons.prems adv have rec: "update_loop ss (h1\<lparr>continue_backtest := False\<rparr>) = (Inr u, h')"
      by simp
    from update_loop_frame [OF rec] have "\<not> continue_backtest h'" by simp
    then show ?thesis using adv StopIteration by auto
  next
    case (Yield bar)
    from Cons.prems adv Yield obtain bars where bars: "latest_symbol_data h1 a = Some bars"
      by (cases "latest_symbol_data h1 a") auto
    define h2 where "h2 = h1\<lparr>latest_symbol_data := (latest_symbol_data h1)(a \<mapsto> bars @ [bar])\<rparr>"
    from Cons.prems adv Yield bars have rec: "update_loop ss h2 = (Inr u, h')"
      by (simp add: h2_def)
    have same: "\<forall>s \<in> set ss. fst (advance h2 s) = fst (advance h s)"
    proof
      fix s assume "s \<in> set ss"
      with ass have "s \<noteq> a" by auto
      then have "new_bar h2 s = new_bar h s" "symbol_data h2 s = symbol_data h s"
        using F by (simp_all add: h2_def)
      from advance_cong(1) [OF this] show "fst (advance h2 s) = fst (advance h s)" .
    qed
    have "continue_backtest h2 = continue_backtest h" using F by (simp add: h2_def)
    with Cons.IH [OF rec dss] same show ?thesis using adv Yield by auto
  qed
qed

subsection \<open>Calls of update_bars\<close>

lemma update_bars_frame:
  "symbol_list (snd (update_bars h)) = symbol_list h"
  "dom (latest_symbol_data (snd (update_bars h))) = dom (latest_symbol_data h)"
  "dom (new_bar (snd (update_bars h))) = dom (new_bar h)"
  "new_bar h t = Some Finished \<Longrightarrow> new_bar (snd (update_bars h)) t = Some Finished"
proof -
  obtain res h' where ul: "update_loop (symbol_list h) h = (res, h')"
    by (cases "update_loop (symbol_list h) h") auto
  note U = update_loop_frame [OF ul]
  show "symbol_list (snd (update_bars h)) = symbol_list h"
    using U ul by (cases res) (simp_all add: update_bars_def)
  show "dom (latest_symbol_data (snd (update_bars h))) = dom (latest_symbol_data h)"
    using U ul by (cases res) (simp_all add: update_bars_def)
  show "dom (new_bar (snd (update_bars h))) = dom (new_bar h)"
    using U ul by (cases res) (simp_all add: update_bars_def)
  show "new_bar h t = Some Finished \<Longrightarrow> new_bar (snd (update_bars h)) t = Some Finished"
    using U ul by (cases res) (simp_all add: update_bars_def)
qed

lemma update_bars_grows:
  assumes "distinct (symbol_list h)" and "latest_symbol_data h s = Some bs"
  shows "\<exists>add. latest_symbol_data (snd (update_bars h)) s = Some (bs @ add) \<and> length add \<le> 1"
proof -
  obtain res h' where ul: "update_loop (symbol_list h) h = (res, h')"
    by (cases "update_loop (symbol_list h) h") auto
  from update_loop_grows [OF assms(1) ul assms(2)] ul show ?thesis
    by (cases res) (simp_all add: update_bars_def)
qed

lemma calls_frame:
  "symbol_list (calls n h) = symbol_list h"
  "dom (latest_symbol_data (calls n h)) = dom (latest_symbol_data h)"
  "dom (new_bar (calls n h)) = dom (new_bar h)"
  by (induction n) (simp_all add: update_bars_frame)

lemma calls_keeps_finished:
  "new_bar h t = Some Finished \<Longrightarrow> new_bar (calls n h) t = Some Finished"
  by (induction n) (simp_all add: update_bars_frame)

lemma calls_grows:
  assumes "distinct (symbol_list h)" and "latest_symbol_data (calls m h) s = Some bs"
  shows "\<exists>add. latest_symbol_data (calls (m + k) h) s = Some (bs @ add) \<and> length add \<le> k"
proof (induction k)
  case 0
  then show ?case using assms by simp
next
  case (Suc k)
  then obtain add where a: "latest_symbol_data (calls (m + k) h) s = Some (bs @ add)"
    and l: "length add \<le> k" by blast
  have "distinct (symbol_list (calls (m + k) h))" using assms(1) by (simp add: calls_frame)
  from update_bars_grows [OF this a] obtain add' where
    "latest_symbol_data (calls (Suc (m + k)) h) s = Some ((bs @ add) @ add')" "length add' \<le> 1"
    by auto
  then show ?case using l by (intro exI [of _ "add @ add'"]) simp
qed

lemma simple_resume_cases:
  "simple_resume rs = (out, g) \<Longrightarrow>
     (out = StopIteration \<and> g = Done) \<or> (\<exists>e. out = Raise e \<and> g = Done)
     \<or> (\<exists>bar rs'. out = Yield bar \<and> g = Running rs')"
  by (cases rs) (auto split: sum.splits)

lemma simple_next_stop: "simple_next df g = (StopIteration, g') \<Longrightarrow> g' = Done"
  by (cases g) (auto dest: simple_resume_cases)

lemma update_bars_s_grows:
  "\<exists>add. latest_symbol_data_s (snd (update_bars_s h)) = latest_symbol_data_s h @ add
     \<and> length add \<le> 1"
proof -
  obtain out g where "simple_next (bars_s h) (new_bar_s h) = (out, g)"
    by (cases "simple_next (bars_s h) (new_bar_s h)") auto
  then show ?thesis by (cases out) (simp_all add: update_bars_s_def advance_s_def)
qed

lemma update_bars_s_keeps_done:
  "new_bar_s h = Done \<Longrightarrow> new_bar_s (snd (update_bars_s h)) = Done"
  by (simp add: update_bars_s_def advance_s_def)

lemma calls_s_keeps_done: "new_bar_s h = Done \<Longrightarrow> new_bar_s (calls_s n h) = Done"
  by (induction n) (simp_all add: update_bars_s_keeps_done)

lemma calls_s_grows:
  "\<exists>add. latest_symbol_data_s (calls_s (m + k) h) = latest_symbol_data_s (calls_s m h) @ add
     \<and> length add \<le> k"
proof (induction k)
  case 0
  then show ?case by simp
next
  case (Suc k)
  then obtain add where a: "latest_symbol_data_s (calls_s (m + k) h) = latest_symbol_data_s (calls_s m h) @ add"
    and l: "length add \<le> k" by blast
  from update_bars_s_grows [of "calls_s (m + k) h"] obtain add' where
    "latest_symbol_data_s (calls_s (Suc (m + k)) h) = latest_symbol_data_s (calls_s (m + k) h) @ add'"
    "length add' \<le> 1" by auto
  then show ?case using a l by (intro exI [of _ "add @ add'"]) simp
qed

lemma advances_keeps_finished:
  "new_bar h t = Some Finished \<Longrightarrow> new_bar (advances ts h) t = Some Finished"
proof (induction ts arbitrary: h)
  case Nil
  then show ?case by (simp add: advances_def)
next
  case (Cons a ts)
  obtain out h1 where adv: "advance h a = (out, h1)" by (cases "advance h a") auto
  from advance_keeps_finished [OF Cons.prems adv] have "new_bar h1 t = Some Finished" .
  from Cons.IH [OF this] show ?case using adv by (simp add: advances_def)
qed

lemma update_loop_succeeds:
  "distinct ss \<Longrightarrow> set ss \<subseteq> dom (latest_symbol_data h) \<Longrightarrow>
     \<forall>s \<in> set ss. \<forall>e. fst (advance h s) \<noteq> Raise e \<Longrightarrow>
     \<exists>h'. update_loop ss h = (Inr (), h')"
proof (induction ss arbitrary: h)
  case Nil
  then show ?case by simp
next
  case (Cons a ss)
  obtain out h1 where adv: "advance h a = (out, h1)" by (cases "advance h a") auto
  note F = advance_frame [OF adv]
  have dss: "distinct ss" and ass: "a \<notin> set ss" using Cons.prems(1) by simp_all
  have step: "\<exists>h'. update_loop ss h2 = (Inr (), h')"
    if nb: "\<And>t. t \<noteq> a \<Longrightarrow> new_bar h2 t = new_bar h t"
      and sd: "\<And>t. t \<noteq> a \<Longrightarrow> symbol_data h2 t = symbol_data h t"
      and dl: "dom (latest_symbol_data h2) = dom (latest_symbol_data h)" for h2
  proof (rule Cons.IH [OF dss])
    show "set ss \<subseteq> dom (latest_symbol_data h2)" using Cons.prems(2) dl by simp
    show "\<forall>s\<in>set ss. \<forall>e. fst (advance h2 s) \<noteq> Raise e"
    proof (intro ballI allI)
      fix s e assume s: "s \<in> set ss"
      with ass have "s \<noteq> a" by auto
      from advance_cong(1) [OF nb [OF this] sd [OF this]] Cons.prems(3) s
      show "fst (advance h2 s) \<noteq> Raise e" by simp
    qed
  qed
  show ?case
  proof (cases out)
    case (Raise e)
    with adv Cons.prems(3) show ?thesis by auto
  next
    case StopIteration
    have "\<exists>h'. update_loop ss (h1\<lparr>continue_backtest := False\<rparr>) = (Inr (), h')"
      using F by (intro step) simp_all
    then show ?thesis using adv StopIteration by simp
  next
    case (Yield bar)
    from Cons.prems(2) F(3) obtain bars where bars: "latest_symbol_data h1 a = Some bars" by auto
    have "\<exists>h'. update_loop ss (h1\<lparr>latest_symbol_data := (latest_symbol_data h1)(a \<mapsto> bars @ [bar])\<rparr>) = (Inr (), h')"
    proof (intro step)
      show "dom (latest_symbol_data (h1\<lparr>latest_symbol_data := (latest_symbol_data h1)(a \<mapsto> bars @ [bar])\<rparr>))
              = dom (latest_symbol_data h)"
        using bars F(3) by auto
    qed (use F in simp_all)
    then show ?thesis using adv Yield bars by simp
  qed
qed

lemma update_bars_s_effect:
  "update_bars_s hs = (Inr (), hs') \<Longrightarrow>
      events_s hs' = events_s hs @ [MarketEvent]
      \<and> new_bar_s hs' = new_bar_s (snd (advance_s hs))
      \<and> (case fst (advance_s hs) of
            StopIteration \<Rightarrow>
              latest_symbol_data_s hs' = latest_symbol_data_s hs \<and> \<not> continue_backtest_s hs'
          | Yield bar \<Rightarrow>
              latest_symbol_data_s hs' = latest_symbol_data_s hs @ [bar]
              \<and> continue_backtest_s hs' = continue_backtest_s hs
          | Raise e \<Rightarrow> False)"
proof -
  assume a: "update_bars_s hs = (Inr (), hs')"
  obtain out g where sn: "simple_next (bars_s hs) (new_bar_s hs) = (out, g)"
    by (cases "simple_next (bars_s hs) (new_bar_s hs)") auto
  with a show ?thesis by (cases out) (auto simp: update_bars_s_def advance_s_def)
qed

lemma update_bars_s_succeeds:
  "\<forall>e. fst (advance_s hs) \<noteq> Raise e \<Longrightarrow> \<exists>hs'. update_bars_s hs = (Inr (), hs')"
proof -
  assume a: "\<forall>e. fst (advance_s hs) \<noteq> Raise e"
  obtain out g where sn: "simple_next (bars_s hs) (new_bar_s hs) = (out, g)"
    by (cases "simple_next (bars_s hs) (new_bar_s hs)") auto
  with a show ?thesis by (cases out) (auto simp: update_bars_s_def advance_s_def)
qed

subsection \<open>Construction succeeds; the shape of a bar; padding\<close>








lemma pad_row_no_earlier_row:
  "\<forall>k \<in> set (index_of df). \<not> k \<le> t \<Longrightarrow> pad_row df t = nan_row df"
proof -
  assume a: "\<forall>k \<in> set (index_of df). \<not> k \<le> t"
  have "filter (\<lambda>(k, r). k \<le> t) (frame_rows df) = []"
    using a by (auto simp: index_of_def filter_empty_conv)
  then show ?thesis by (simp add: pad_row_def)
qed



section \<open>The claims\<close>

lemmas model_defs =
  HistoricCSVDataHandler_init_def new_open_convert_csv_files_def load_symbol_def read_csv_def
  os_path_join_def dropna_def reset_index_def range_index_def index_of_def index_union_def
  aligned_series_def reindex_pad_def pad_row_def nan_row_def
  advance_def historic_bar_def update_bars_def get_latest_bars_def slice_from_def
  SimpleCSVHandler_init_def simple_bar_def advance_s_def update_bars_s_def get_latest_bars_s_def
  yahoo_header_def cells_def fs_AB_def

lemma calls_2: "calls 2 h = snd (update_bars (snd (update_bars h)))"
  by (simp add: numeral_2_eq_2)

text \<open>
  C1. The claim: at construction the unified timeline is the sorted union of the index
  sets of all symbols, and every aligned series has as many entries as the timeline.
  The code calls \<open>comb_index.union\<close> and drops what it returns. With the symbols
  A (one row) and B (two rows), in this order, \<open>comb_index\<close> is A's index \<open>[0]\<close>,
  not the union \<open>[0, 1]\<close> with B's index, and B's aligned series is its first row only.
\<close>

theorem comb_index_is_not_the_union:
  "(case new_open_convert_csv_files fs_AB ''data'' [''A'', ''B''] of
      Inl e \<Rightarrow> False
    | Inr (sd, lat, comb_index) \<Rightarrow>
        comb_index = Some [0]
        \<and> load_symbol fs_AB ''data'' ''B''
            = Inr \<lparr>columns = yahoo_header, frame_rows = [(0, cells 20), (1, cells 30)]\<rparr>
        \<and> index_union [0] [0, 1] = [0, 1]
        \<and> sd ''B'' = Some (Iterrows [(0, cells 20)]))"
  by (simp add: model_defs)

text \<open>
  What the loader does compute: \<open>comb_index\<close> is the index of the first symbol's
  frame, and the series of every symbol has exactly these labels, in this order.
\<close>

lemma aligned_series_labels:
  assumes "new_open_convert_csv_files fs dir (a # ss) = Inr (sd, lat, comb_index)"
    and "s \<in> set (a # ss)"
  shows "\<exists>dfa series. load_symbol fs dir a = Inr dfa \<and> comb_index = Some (index_of dfa)
           \<and> sd s = Some (Iterrows series) \<and> map fst series = index_of dfa"
proof -
  from assms(1) obtain sd0 where
    ll: "load_loop fs dir (a # ss) (Map.empty, Map.empty, None) = Inr (sd0, lat, comb_index)"
    and rl: "reindex_loop comb_index (a # ss) sd0 = Inr sd"
    by (auto simp: new_open_convert_csv_files_def split: sum.splits)
  from ll obtain dfa where dfa: "load_symbol fs dir a = Inr dfa" by (auto split: sum.splits)
  with load_loop_comb_index [OF ll] have ci: "comb_index = Some (index_of dfa)" by simp
  from reindex_loop_result [OF rl] assms(2) obtain df where
    "sd s = Some (Iterrows (aligned_series comb_index df))" by blast
  moreover have "map fst (aligned_series comb_index df) = index_of dfa"
    using ci by (simp add: aligned_series_def reindex_pad_def comp_def)
  ultimately show ?thesis using dfa ci by blast
qed



text \<open>
  C3. The claim: every call of \<open>update_bars\<close> advances every cursor once, appends the
  bar or clears \<open>continue_backtest\<close>, and pushes one notification. The code reads the
  cells 0 to 6 of a row, so a file with the six columns timestamp, open, high, low,
  close, volume makes the first \<open>next\<close> raise IndexError, which \<open>update_bars\<close> does
  not catch: the call ends before \<open>self.events.append\<close>.
\<close>

theorem update_bars_raises_on_six_columns:
  "(case HistoricCSVDataHandler_init [] ''data'' [''N''] fs_narrow of
      Inl e \<Rightarrow> False
    | Inr h \<Rightarrow>
        (case update_bars h of (res, h') \<Rightarrow>
           res = Inl IndexError \<and> events h' = [] \<and> latest_symbol_data h' ''N'' = Some []))
   \<and> (case SimpleCSVHandler_init [] ''data/N.csv'' fs_narrow of
      Inl e \<Rightarrow> False
    | Inr hs \<Rightarrow>
        (case update_bars_s hs of (res, hs') \<Rightarrow>
           res = Inl IndexError \<and> events_s hs' = [] \<and> latest_symbol_data_s hs' = []))"
  by (simp add: model_defs fs_narrow_def)

text \<open>
  C3, amended. Let \<open>h\<close> be a constructed handler after any number of calls. If no
  cursor of a registered symbol raises when it is advanced in \<open>h\<close>, then
  \<open>update_bars\<close> returns normally, in a state \<open>h'\<close> where: one notification was
  appended; the cursor of every registered symbol is as one \<open>next\<close> leaves it; where the
  cursor signalled exhaustion the history is unchanged and \<open>continue_backtest\<close> is
  false; where it produced a bar the bar was appended to the history of its symbol;
  and \<open>continue_backtest\<close> is what it was unless a cursor signalled exhaustion. The
  same for the one cursor of SimpleCSVHandler.
\<close>

theorem update_bars_when_no_cursor_raises:
  assumes "HistoricCSVDataHandler_init evs dir syms fs = Inr h0"
  shows "((\<forall>s \<in> set syms. \<forall>e. fst (advance (calls n h0) s) \<noteq> Raise e) \<longrightarrow>
          (\<exists>h'. update_bars (calls n h0) = (Inr (), h')
           \<and> events h' = events (calls n h0) @ [MarketEvent]
           \<and> (\<forall>s \<in> set syms.
                 new_bar h' s = new_bar (snd (advance (calls n h0) s)) s
               \<and> symbol_data h' s = symbol_data (snd (advance (calls n h0) s)) s
               \<and> (case fst (advance (calls n h0) s) of
                    StopIteration \<Rightarrow>
                      latest_symbol_data h' s = latest_symbol_data (calls n h0) s
                      \<and> \<not> continue_backtest h'
                  | Yield bar \<Rightarrow>
                      (\<exists>bars. latest_symbol_data (calls n h0) s = Some bars
                         \<and> latest_symbol_data h' s = Some (bars @ [bar]))
                  | Raise e \<Rightarrow> False))
           \<and> continue_backtest h' =
               (continue_backtest (calls n h0)
                \<and> (\<forall>s \<in> set syms. fst (advance (calls n h0) s) \<noteq> StopIteration))))
     \<and> ((\<forall>e. fst (advance_s hs) \<noteq> Raise e) \<longrightarrow>
          (\<exists>hs'. update_bars_s hs = (Inr (), hs')
           \<and> events_s hs' = events_s hs @ [MarketEvent]
           \<and> new_bar_s hs' = new_bar_s (snd (advance_s hs))
           \<and> (case fst (advance_s hs) of
                StopIteration \<Rightarrow>
                  latest_symbol_data_s hs' = latest_symbol_data_s hs
                  \<and> \<not> continue_backtest_s hs'
              | Yield bar \<Rightarrow>
                  latest_symbol_data_s hs' = latest_symbol_data_s hs @ [bar]
                  \<and> continue_backtest_s hs' = continue_backtest_s hs
              | Raise e \<Rightarrow> False)))"
proof (rule conjI; rule impI)
  assume noraise: "\<forall>s \<in> set syms. \<forall>e. fst (advance (calls n h0) s) \<noteq> Raise e"
  note I = init_result [OF assms(1)]
  let ?h = "calls n h0"
  have sl: "symbol_list ?h = syms" using I by (simp add: calls_frame)
  have d: "distinct (symbol_list ?h)" using I sl by simp
  have sub: "set (symbol_list ?h) \<subseteq> dom (latest_symbol_data ?h)"
    using I sl by (simp add: calls_frame)
  from update_loop_succeeds [OF d sub] noraise sl
  obtain h1 where ul: "update_loop (symbol_list ?h) ?h = (Inr (), h1)" by auto
  define h' where "h' = h1\<lparr>events := events h1 @ [MarketEvent]\<rparr>"
  have ub: "update_bars ?h = (Inr (), h')" using ul by (simp add: update_bars_def h'_def)
  have ev: "events h' = events ?h @ [MarketEvent]"
    using update_loop_frame [OF ul] by (simp add: h'_def)
  have eff: "\<forall>s \<in> set syms.
                 new_bar h' s = new_bar (snd (advance ?h s)) s
               \<and> symbol_data h' s = symbol_data (snd (advance ?h s)) s
               \<and> (case fst (advance ?h s) of
                    StopIteration \<Rightarrow>
                      latest_symbol_data h' s = latest_symbol_data ?h s
                      \<and> \<not> continue_backtest h'
                  | Yield bar \<Rightarrow>
                      (\<exists>bars. latest_symbol_data ?h s = Some bars
                         \<and> latest_symbol_data h' s = Some (bars @ [bar]))
                  | Raise e \<Rightarrow> False)"
  proof
    fix s assume "s \<in> set syms"
    then have s: "s \<in> set (symbol_list ?h)" using sl by simp
    from update_loop_effect [OF d ul s]
    show "new_bar h' s = new_bar (snd (advance ?h s)) s
               \<and> symbol_data h' s = symbol_data (snd (advance ?h s)) s
               \<and> (case fst (advance ?h s) of
                    StopIteration \<Rightarrow>
                      latest_symbol_data h' s = latest_symbol_data ?h s
                      \<and> \<not> continue_backtest h'
                  | Yield bar \<Rightarrow>
                      (\<exists>bars. latest_symbol_data ?h s = Some bars
                         \<and> latest_symbol_data h' s = Some (bars @ [bar]))
                  | Raise e \<Rightarrow> False)"
      by (cases "fst (advance ?h s)") (simp_all add: h'_def)
  qed
  have fl: "continue_backtest h' =
               (continue_backtest ?h \<and> (\<forall>s \<in> set syms. fst (advance ?h s) \<noteq> StopIteration))"
    using update_loop_flag [OF ul d] sl by (simp add: h'_def)
  from ub ev eff fl
  show "\<exists>h'. update_bars ?h = (Inr (), h')
           \<and> events h' = events ?h @ [MarketEvent]
           \<and> (\<forall>s \<in> set syms.
                 new_bar h' s = new_bar (snd (advance ?h s)) s
               \<and> symbol_data h' s = symbol_data (snd (advance ?h s)) s
               \<and> (case fst (advance ?h s) of
                    StopIteration \<Rightarrow>
                      latest_symbol_data h' s = latest_symbol_data ?h s
                      \<and> \<not> continue_backtest h'
                  | Yield bar \<Rightarrow>
                      (\<exists>bars. latest_symbol_data ?h s = Some bars
                         \<and> latest_symbol_data h' s = Some (bars @ [bar]))
                  | Raise e \<Rightarrow> False))
           \<and> continue_backtest h' =
               (continue_backtest ?h
                \<and> (\<forall>s \<in> set syms. fst (advance ?h s) \<noteq> StopIteration))"
    by blast
next
  assume "\<forall>e. fst (advance_s hs) \<noteq> Raise e"
  from update_bars_s_succeeds [OF this] obtain hs' where u: "update_bars_s hs = (Inr (), hs')"
    by blast
  from update_bars_s_effect [OF u] u
  show "\<exists>hs'. update_bars_s hs = (Inr (), hs')
           \<and> events_s hs' = events_s hs @ [MarketEvent]
           \<and> new_bar_s hs' = new_bar_s (snd (advance_s hs))
           \<and> (case fst (advance_s hs) of
                StopIteration \<Rightarrow>
                  latest_symbol_data_s hs' = latest_symbol_data_s hs
                  \<and> \<not> continue_backtest_s hs'
              | Yield bar \<Rightarrow>
                  latest_symbol_data_s hs' = latest_symbol_data_s hs @ [bar]
                  \<and> continue_backtest_s hs' = continue_backtest_s hs
              | Raise e \<Rightarrow> False)"
    by blast
qed

text \<open>
  The symbols B (two rows) and A (one row, repeated at the second label): the first
  call appends the first bar of each and leaves \<open>continue_backtest\<close> true.
\<close>

theorem update_bars_when_no_cursor_raises_witness:
  "\<exists>h0 h' hs hs'.
     HistoricCSVDataHandler_init [] ''data'' [''B'', ''A''] fs_AB = Inr h0
     \<and> fst (advance (calls 0 h0) ''B'') = Yield (Symbol ''B'' # map Field (cells 20))
     \<and> fst (advance (calls 0 h0) ''A'') = Yield (Symbol ''A'' # map Field (cells 10))
     \<and> update_bars (calls 0 h0) = (Inr (), h')
     \<and> events h' = [MarketEvent]
     \<and> latest_symbol_data h' ''B'' = Some [Symbol ''B'' # map Field (cells 20)]
     \<and> latest_symbol_data h' ''A'' = Some [Symbol ''A'' # map Field (cells 10)]
     \<and> continue_backtest h'
     \<and> SimpleCSVHandler_init [] ''data/A.csv'' fs_AB = Inr hs
     \<and> fst (advance_s hs) = Yield (map Field (cells 10))
     \<and> update_bars_s hs = (Inr (), hs')
     \<and> events_s hs' = [MarketEvent]
     \<and> latest_symbol_data_s hs' = [map Field (cells 10)]"
proof -
  have "\<exists>h0. HistoricCSVDataHandler_init [] ''data'' [''B'', ''A''] fs_AB = Inr h0"
    by (simp add: model_defs)
  then obtain h0 :: "nat HistoricCSVDataHandler" where
    i: "HistoricCSVDataHandler_init [] ''data'' [''B'', ''A''] fs_AB = Inr h0" by blast
  have "\<exists>hs. SimpleCSVHandler_init [] ''data/A.csv'' fs_AB = Inr hs"
    by (simp add: model_defs)
  then obtain hs :: "nat SimpleCSVHandler" where
    j: "SimpleCSVHandler_init [] ''data/A.csv'' fs_AB = Inr hs" by blast
  have b: "fst (advance (calls 0 h0) ''B'') = Yield (Symbol ''B'' # map Field (cells 20))"
    and a: "fst (advance (calls 0 h0) ''A'') = Yield (Symbol ''A'' # map Field (cells 10))"
    and l0: "latest_symbol_data h0 ''B'' = Some []" "latest_symbol_data h0 ''A'' = Some []"
    and e0: "events h0 = []" and c0: "continue_backtest h0"
    using i by (auto simp: model_defs)
  have c: "fst (advance_s hs) = Yield (map Field (cells 10))"
    and l1: "latest_symbol_data_s hs = []" and e1: "events_s hs = []"
    using j by (auto simp: model_defs)
  have n1: "\<forall>s \<in> set [''B'', ''A'']. \<forall>e. fst (advance (calls 0 h0) s) \<noteq> Raise e"
    using a b by simp
  have n2: "\<forall>e. fst (advance_s hs) \<noteq> Raise e" using c by simp
  from update_bars_when_no_cursor_raises [OF i, of 0 hs] n1 n2
  obtain h' hs' where
    "update_bars (calls 0 h0) = (Inr (), h')" "events h' = events (calls 0 h0) @ [MarketEvent]"
    "latest_symbol_data h' ''B'' = Some [Symbol ''B'' # map Field (cells 20)]"
    "latest_symbol_data h' ''A'' = Some [Symbol ''A'' # map Field (cells 10)]"
    "continue_backtest h'"
    "update_bars_s hs = (Inr (), hs')" "events_s hs' = events_s hs @ [MarketEvent]"
    "latest_symbol_data_s hs' = [map Field (cells 10)]"
    using a b c l0 l1 c0 by (auto simp del: calls.simps simp: calls.simps(1))
  then show ?thesis using i j a b c e0 e1 by (intro exI [of _ h0] exI [of _ h'] exI [of _ hs] exI [of _ hs']) simp
qed

text \<open>
  C4. The claim: \<open>get_latest_bars(i, N)\<close> returns \<open>min(N, len(History[i]))\<close> bars
  for every count \<open>N\<close>. At \<open>N = 0\<close> the slice \<open>bars_list[-0:]\<close> is the whole list:
  after two calls of \<open>update_bars\<close> the history of B has two bars and both are
  returned, where \<open>min(0, 2) = 0\<close>.
\<close>

theorem get_latest_bars_zero_returns_two:
  "(case HistoricCSVDataHandler_init [] ''data'' [''B'', ''A''] fs_AB of
      Inl e \<Rightarrow> False
    | Inr h \<Rightarrow>
        (case get_latest_bars (calls 2 h) ''B'' 0 of
           (Some bs, out) \<Rightarrow> length bs = 2 \<and> min 0 (length bs) = 0
         | (None, out) \<Rightarrow> False))"
  by (simp add: model_defs calls_2)

text \<open>For a count of at least one the result is the suffix that the claim describes.\<close>

lemma get_latest_bars_positive_count:
  assumes "0 < N"
  shows "latest_symbol_data h s = Some bs \<Longrightarrow>
           get_latest_bars h s N = (Some (drop (length bs - nat N) bs), [])"
    and "get_latest_bars_s hs symbol N
           = drop (length (latest_symbol_data_s hs) - nat N) (latest_symbol_data_s hs)"
    and "length (drop (length xs - nat N) xs) = min (nat N) (length xs)"
  using assms by (auto simp: get_latest_bars_def get_latest_bars_s_def slice_from_neg)

text \<open>
  C5. Once the advance of a cursor has signalled exhaustion (StopIteration, which
  \<open>update_bars\<close> catches), every later advance of this cursor signals exhaustion
  again and raises nothing else: after any further advances of any cursors, and
  after any number of calls of \<open>update_bars\<close>. The same for SimpleCSVHandler.
\<close>

theorem exhaustion_is_sticky:
  "(fst (advance h s) = StopIteration \<longrightarrow>
      fst (advance (advances ts (snd (advance h s))) s) = StopIteration
      \<and> fst (advance (calls n (snd (advance h s))) s) = StopIteration)
   \<and> (fst (advance_s hs) = StopIteration \<longrightarrow>
      fst (advance_s (calls_s n (snd (advance_s hs)))) = StopIteration)"
proof (intro conjI impI)
  assume stop: "fst (advance h s) = StopIteration"
  then have "advance h s = (StopIteration, snd (advance h s))" by (metis prod.collapse)
  from advance_stop_finishes [OF this] have fin: "new_bar (snd (advance h s)) s = Some Finished" .
  show "fst (advance (advances ts (snd (advance h s))) s) = StopIteration"
    using advances_keeps_finished [OF fin] by (simp add: advance_finished)
  show "fst (advance (calls n (snd (advance h s))) s) = StopIteration"
    using calls_keeps_finished [OF fin] by (simp add: advance_finished)
next
  assume stop: "fst (advance_s hs) = StopIteration"
  obtain out g where sn: "simple_next (bars_s hs) (new_bar_s hs) = (out, g)"
    by (cases "simple_next (bars_s hs) (new_bar_s hs)") auto
  with stop have "out = StopIteration" by (simp add: advance_s_def)
  with sn have "g = Done" by (auto dest: simple_next_stop)
  with sn have "new_bar_s (snd (advance_s hs)) = Done" by (simp add: advance_s_def)
  from calls_s_keeps_done [OF this]
  show "fst (advance_s (calls_s n (snd (advance_s hs)))) = StopIteration"
    by (simp add: advance_s_def)
qed


text \<open>
  The symbols A and B, in this order, have one aligned row each: after the first call
  the cursor of A is exhausted, and stays so.
\<close>

theorem exhaustion_is_sticky_witness:
  "\<exists>h0 hs.
     HistoricCSVDataHandler_init [] ''data'' [''A'', ''B''] fs_AB = Inr h0
     \<and> fst (advance (calls 1 h0) ''A'') = StopIteration
     \<and> fst (advance (advances [''B'', ''A''] (snd (advance (calls 1 h0) ''A''))) ''A'')
         = StopIteration
     \<and> fst (advance (calls 2 (snd (advance (calls 1 h0) ''A''))) ''A'') = StopIteration
     \<and> SimpleCSVHandler_init [] ''data/A.csv'' fs_AB = Inr hs
     \<and> fst (advance_s (calls_s 1 hs)) = StopIteration
     \<and> fst (advance_s (calls_s 2 (snd (advance_s (calls_s 1 hs))))) = StopIteration"
proof -
  have "\<exists>h0. HistoricCSVDataHandler_init [] ''data'' [''A'', ''B''] fs_AB = Inr h0"
    by (simp add: model_defs)
  then obtain h0 :: "nat HistoricCSVDataHandler" where
    i: "HistoricCSVDataHandler_init [] ''data'' [''A'', ''B''] fs_AB = Inr h0" by blast
  have "\<exists>hs. SimpleCSVHandler_init [] ''data/A.csv'' fs_AB = Inr hs"
    by (simp add: model_defs)
  then obtain hs :: "nat SimpleCSVHandler" where
    j: "SimpleCSVHandler_init [] ''data/A.csv'' fs_AB = Inr hs" by blast
  have a: "fst (advance (calls 1 h0) ''A'') = StopIteration"
    using i by (auto simp: model_defs)
  have b: "fst (advance_s (calls_s 1 hs)) = StopIteration"
    using j by (auto simp: model_defs)
  from exhaustion_is_sticky [of "calls 1 h0" "''A''" "[''B'', ''A'']" 2 "calls_s 1 hs"] a b i j
  show ?thesis by blast
qed

text \<open>
  C6. For a constructed handler and \<open>m \<le> n\<close>: the history of a registered symbol
  exists after \<open>m\<close> calls of \<open>update_bars\<close>, and after \<open>n\<close> calls it is the history
  after \<open>m\<close> calls followed by at most \<open>n - m\<close> more bars: nothing is removed or
  reordered, and one call adds at most one bar. \<open>get_latest_bars\<close> returns a slice and
  changes nothing. The same for the one history of SimpleCSVHandler.
\<close>

theorem history_only_grows:
  assumes "HistoricCSVDataHandler_init evs dir syms fs = Inr h0" and "m \<le> n"
  shows "(s \<in> set syms \<longrightarrow> (\<exists>bs. latest_symbol_data (calls m h0) s = Some bs))
     \<and> (\<forall>bs. latest_symbol_data (calls m h0) s = Some bs \<longrightarrow>
          (\<exists>add. latest_symbol_data (calls n h0) s = Some (bs @ add) \<and> length add \<le> n - m))
     \<and> (\<exists>add. latest_symbol_data_s (calls_s n hs) = latest_symbol_data_s (calls_s m hs) @ add
          \<and> length add \<le> n - m)"
proof (intro conjI allI impI)
  note I = init_result [OF assms(1)]
  assume "s \<in> set syms"
  then have "s \<in> dom (latest_symbol_data (calls m h0))" using I(5) by (simp add: calls_frame)
  then show "\<exists>bs. latest_symbol_data (calls m h0) s = Some bs" by auto
next
  note I = init_result [OF assms(1)]
  fix bs assume bs: "latest_symbol_data (calls m h0) s = Some bs"
  have d: "distinct (symbol_list h0)" using I by simp
  from calls_grows [OF d bs, of "n - m"] assms(2)
  show "\<exists>add. latest_symbol_data (calls n h0) s = Some (bs @ add) \<and> length add \<le> n - m" by simp
next
  from calls_s_grows [of m "n - m" hs] assms(2)
  show "\<exists>add. latest_symbol_data_s (calls_s n hs) = latest_symbol_data_s (calls_s m hs) @ add
          \<and> length add \<le> n - m" by simp
qed


theorem history_only_grows_witness:
  "\<exists>h0 hs bs add add'.
     HistoricCSVDataHandler_init [] ''data'' [''B'', ''A''] fs_AB = Inr h0 \<and> (1 :: nat) \<le> 2
     \<and> ''B'' \<in> set [''B'', ''A'']
     \<and> latest_symbol_data (calls 1 h0) ''B'' = Some bs
     \<and> latest_symbol_data (calls 2 h0) ''B'' = Some (bs @ add) \<and> length add \<le> 2 - 1
     \<and> SimpleCSVHandler_init [] ''data/B.csv'' fs_AB = Inr hs
     \<and> latest_symbol_data_s (calls_s 2 hs) = latest_symbol_data_s (calls_s 1 hs) @ add'
     \<and> length add' \<le> 2 - 1"
proof -
  have "\<exists>h0. HistoricCSVDataHandler_init [] ''data'' [''B'', ''A''] fs_AB = Inr h0"
    by (simp add: model_defs)
  then obtain h0 :: "nat HistoricCSVDataHandler" where
    i: "HistoricCSVDataHandler_init [] ''data'' [''B'', ''A''] fs_AB = Inr h0" by blast
  have "\<exists>hs. SimpleCSVHandler_init [] ''data/B.csv'' fs_AB = Inr hs"
    by (simp add: model_defs)
  then obtain hs :: "nat SimpleCSVHandler" where
    j: "SimpleCSVHandler_init [] ''data/B.csv'' fs_AB = Inr hs" by blast
  have le: "(1 :: nat) \<le> 2" by simp
  have m: "''B'' \<in> set [''B'', ''A'']" by simp
  from history_only_grows [OF i le, of "''B''" hs] m i j le show ?thesis by blast
qed

text \<open>
  C7. For a symbol that was not in the symbol list at construction, after any number
  of calls of \<open>update_bars\<close>: \<open>get_latest_bars\<close> prints its message and returns None.
  It raises nothing: the KeyError is caught.
\<close>

theorem unknown_symbol_is_reported:
  assumes "HistoricCSVDataHandler_init evs dir syms fs = Inr h0" and "s \<notin> set syms"
  shows "get_latest_bars (calls n h0) s N =
           (None, [''That symbol is not available in the historical data set.''])"
proof -
  note I = init_result [OF assms(1)]
  have "s \<notin> dom (latest_symbol_data (calls n h0))" using I(5) assms(2) by (simp add: calls_frame)
  then have "latest_symbol_data (calls n h0) s = None" by auto
  then show ?thesis by (simp add: get_latest_bars_def)
qed


theorem unknown_symbol_is_reported_witness:
  "\<exists>h0. HistoricCSVDataHandler_init [] ''data'' [''B'', ''A''] fs_AB = Inr h0
     \<and> ''MSFT'' \<notin> set [''B'', ''A'']
     \<and> get_latest_bars (calls 2 h0) ''MSFT'' 1 =
           (None, [''That symbol is not available in the historical data set.''])"
proof -
  have "\<exists>h0. HistoricCSVDataHandler_init [] ''data'' [''B'', ''A''] fs_AB = Inr h0"
    by (simp add: model_defs)
  then obtain h0 :: "nat HistoricCSVDataHandler" where
    i: "HistoricCSVDataHandler_init [] ''data'' [''B'', ''A''] fs_AB = Inr h0" by blast
  have m: "''MSFT'' \<notin> set [''B'', ''A'']" by simp
  from unknown_symbol_is_reported [OF i m, of 2 1] i m show ?thesis by blast
qed










text \<open>
  C10. With \<open>N = 0\<close> the slice \<open>bars_list[-0:]\<close> is \<open>bars_list[0:]\<close>:
  \<open>get_latest_bars\<close> returns the whole history of a registered symbol, in its order,
  and prints nothing; \<open>SimpleCSVHandler.get_latest_bars\<close> returns its whole history
  whatever symbol is passed.
\<close>

theorem zero_count_returns_whole_history:
  "(latest_symbol_data h s = Some bs \<longrightarrow> get_latest_bars h s 0 = (Some bs, []))
   \<and> get_latest_bars_s hs symbol 0 = latest_symbol_data_s hs"
  by (simp add: get_latest_bars_def get_latest_bars_s_def slice_from_zero)


theorem zero_count_returns_whole_history_witness:
  "\<exists>h0 bs. HistoricCSVDataHandler_init [] ''data'' [''B'', ''A''] fs_AB = Inr h0
     \<and> latest_symbol_data (calls 2 h0) ''B'' = Some bs \<and> length bs = 2
     \<and> get_latest_bars (calls 2 h0) ''B'' 0 = (Some bs, [])"
proof -
  have "\<exists>h0. HistoricCSVDataHandler_init [] ''data'' [''B'', ''A''] fs_AB = Inr h0"
    by (simp add: model_defs)
  then obtain h0 :: "nat HistoricCSVDataHandler" where
    i: "HistoricCSVDataHandler_init [] ''data'' [''B'', ''A''] fs_AB = Inr h0" by blast
  have "\<exists>bs. latest_symbol_data (calls 2 h0) ''B'' = Some bs \<and> length bs = 2"
    using i by (auto simp: model_defs calls_2)
  then obtain bs where b: "latest_symbol_data (calls 2 h0) ''B'' = Some bs" "length bs = 2"
    by blast
  from zero_count_returns_whole_history [of "calls 2 h0" "''B''" bs] b i
  show ?thesis by blast
qed

end
